theory Spec2Isabelle
  imports Main "HOL-Library.Sublist"
begin

section \<open>The fragment of Python's \<open>re\<close> module used by the Reference Cleaner\<close>

text \<open>
  \<^verbatim>\<open>clean_xcode_references.py\<close> builds three regular expressions per file name,
  \<^verbatim>\<open>rf'.*{re.escape(old_file)}.*in Sources.*\n'\<close>,
  \<^verbatim>\<open>rf'.*{re.escape(old_file)}.*\n'\<close> and
  \<^verbatim>\<open>rf'.*{re.escape(old_file)}.*Sources.*\n'\<close>,
  and hands each to \<^verbatim>\<open>re.sub(pattern, '', content)\<close>. The patterns are sequences of
  single characters, of the dot and of greedy stars over the dot, so a compiled pattern
  is a list of items. A \<open>char\<close> stands for one character of the Python \<^verbatim>\<open>str\<close>;
  no flag is passed, so the dot matches every character except the newline.
\<close>

datatype atom = Chr char | Dot

datatype item = One atom | Star atom

type_synonym regex = "item list"

definition newline :: char where
  "newline = CHR 0x0A"

fun atom_matches :: "atom \<Rightarrow> char \<Rightarrow> bool" where
  "atom_matches (Chr c) x = (x = c)"
| "atom_matches Dot x = (x \<noteq> newline)"

text \<open>
  The backtracking matcher anchored at the start of its input. It returns the input
  that remains after the match the engine finds first: a star first tries to take one
  more character (greedy) and gives it back only when the rest of the pattern fails.
\<close>

fun match_here :: "regex \<Rightarrow> string \<Rightarrow> string option" where
  "match_here [] s = Some s"
| "match_here (One a # p) [] = None"
| "match_here (One a # p) (x # s) = (if atom_matches a x then match_here p s else None)"
| "match_here (Star a # p) [] = match_here p []"
| "match_here (Star a # p) (x # s) =
     (if atom_matches a x
      then (case match_here (Star a # p) s of
              Some r \<Rightarrow> Some r
            | None \<Rightarrow> match_here p (x # s))
      else match_here p (x # s))"

text \<open>
  \<^verbatim>\<open>re.sub(pattern, '', content)\<close>: scan from the left; where the pattern matches, drop
  the matched characters and go on behind them; elsewhere keep the character and
  move one position on. An empty match is replaced by the empty string, which changes
  nothing, and the scan moves on by one character.
\<close>

function re_sub :: "regex \<Rightarrow> string \<Rightarrow> string" where
  "re_sub p [] = []"
| "re_sub p (x # s) =
     (case match_here p (x # s) of
        None \<Rightarrow> x # re_sub p s
      | Some r \<Rightarrow> if length r < length (x # s) then re_sub p r else x # re_sub p s)"
  by pat_completeness auto
termination
  by (relation "measure (\<lambda>(p, s). length s)") auto

text \<open>\<^verbatim>\<open>re.escape(old_file)\<close> inside a pattern matches the file name literally.\<close>

definition re_escape :: "string \<Rightarrow> regex" where
  "re_escape name = map (\<lambda>c. One (Chr c)) name"

section \<open>The Reference Cleaner (\<^verbatim>\<open>clean_xcode_references.py\<close>)\<close>

definition old_files :: "string list" where
  "old_files =
     [''OldEnhancedSpotifyManager.swift'',
      ''OldUnifiedSpotifyManager.swift'',
      ''OldPersistentSpotifyView.swift'',
      ''OldSpotifyManager.swift'',
      ''OldSimpleSpotifyManager.swift'']"

text \<open>The three patterns, in the order of the loop body.\<close>

definition pattern_a :: "string \<Rightarrow> regex" where
  "pattern_a old_file =
     Star Dot # re_escape old_file @ Star Dot # re_escape ''in Sources'' @ [Star Dot, One (Chr newline)]"

definition pattern_b :: "string \<Rightarrow> regex" where
  "pattern_b old_file = Star Dot # re_escape old_file @ [Star Dot, One (Chr newline)]"

definition pattern_c :: "string \<Rightarrow> regex" where
  "pattern_c old_file =
     Star Dot # re_escape old_file @ Star Dot # re_escape ''Sources'' @ [Star Dot, One (Chr newline)]"

text \<open>One pass of the loop body, and the loop over \<open>old_files\<close>.\<close>

definition remove_references :: "string \<Rightarrow> string \<Rightarrow> string" where
  "remove_references content old_file =
     re_sub (pattern_c old_file) (re_sub (pattern_b old_file) (re_sub (pattern_a old_file) content))"

definition clean_content :: "string \<Rightarrow> string" where
  "clean_content content = foldl remove_references content old_files"

text \<open>
  The file system as the scripts see it: a path either names no file or names a text file
  with its content (what \<^verbatim>\<open>f.read()\<close> in text mode returns). Directories, permissions
  and encodings are outside the model, so the only I/O error is a missing file.
\<close>

type_synonym path = string

type_synonym fs = "path \<rightharpoonup> string"

datatype error = FileNotFoundError

definition path_exists :: "fs \<Rightarrow> path \<Rightarrow> bool" where
  "path_exists fs p = (fs p \<noteq> None)"

definition copy2 :: "path \<Rightarrow> path \<Rightarrow> fs \<Rightarrow> error + fs" where
  "copy2 src dst fs = (case fs src of None \<Rightarrow> Inl FileNotFoundError | Some c \<Rightarrow> Inr (fs(dst \<mapsto> c)))"

definition read_text :: "path \<Rightarrow> fs \<Rightarrow> error + string" where
  "read_text p fs = (case fs p of None \<Rightarrow> Inl FileNotFoundError | Some c \<Rightarrow> Inr c)"

definition write_text :: "path \<Rightarrow> string \<Rightarrow> fs \<Rightarrow> fs" where
  "write_text p c fs = fs(p \<mapsto> c)"

text \<open>
  \<^verbatim>\<open>Path.with_suffix\<close>: the suffix of a path is the part of its last component from the
  last dot on, unless that dot is the first or the last character of the component.
\<close>

definition path_name :: "path \<Rightarrow> string" where
  "path_name p = rev (takeWhile (\<lambda>c. c \<noteq> CHR ''/'') (rev p))"

definition path_suffix :: "path \<Rightarrow> string" where
  "path_suffix p =
     (let name = path_name p;
          ext = rev (takeWhile (\<lambda>c. c \<noteq> CHR ''.'') (rev name))
      in if CHR ''.'' \<in> set name \<and> ext \<noteq> [] \<and> length ext + 1 < length name
         then CHR ''.'' # ext else [])"

definition with_suffix :: "path \<Rightarrow> string \<Rightarrow> path" where
  "with_suffix p new_suffix = take (length p - length (path_suffix p)) p @ new_suffix"

definition project_file :: path where
  "project_file = ''/Users/davidnyman/Code/FrequencyFinder/FrequencyFinder.xcodeproj/project.pbxproj''"

definition backup_file :: path where
  "backup_file = with_suffix project_file ''.pbxproj.backup''"

text \<open>
  What the script prints, one constructor per \<^verbatim>\<open>print\<close> call of the function:
  "project.pbxproj not found!", "Created backup: ...", "Cleaned n characters of old
  references", "Now clean build folder in Xcode ..." and "No old file references found
  in project file".
\<close>

datatype line =
    NotFound
  | CreatedBackup path
  | Cleaned int
  | NowCleanBuildFolder
  | NoOldReferences

text \<open>
  The outcome of a run: the value returned, the lines printed, the file system left
  behind and the paths that were opened for writing, in order.
\<close>

record outcome =
  returned :: bool
  printed :: "line list"
  files :: fs
  written :: "path list"

definition clean_xcode_references :: "fs \<Rightarrow> error + outcome" where
  "clean_xcode_references fs =
     (if \<not> path_exists fs project_file
      then Inr \<lparr>returned = False, printed = [NotFound], files = fs, written = []\<rparr>
      else
        case copy2 project_file backup_file fs of
          Inl e \<Rightarrow> Inl e
        | Inr fs1 \<Rightarrow>
            (case read_text project_file fs1 of
               Inl e \<Rightarrow> Inl e
             | Inr content \<Rightarrow>
                 let original_length = length content;
                     content' = clean_content content
                 in if length content' \<noteq> original_length
                    then Inr \<lparr>returned = True,
                              printed = [CreatedBackup backup_file,
                                         Cleaned (int original_length - int (length content')),
                                         NowCleanBuildFolder],
                              files = write_text project_file content' fs1,
                              written = [backup_file, project_file]\<rparr>
                    else Inr \<lparr>returned = False,
                              printed = [CreatedBackup backup_file, NoOldReferences],
                              files = fs1,
                              written = [backup_file]\<rparr>))"

section \<open>The Structure Checker (\<^verbatim>\<open>update_project_files.py\<close>)\<close>

text \<open>The dictionary literal of \<^verbatim>\<open>create_file_mapping\<close>, in insertion order.\<close>

definition create_file_mapping :: "(path \<times> path) list" where
  "create_file_mapping =
     [(''FrequencyFinder.swift'', ''App/FrequencyFinder.swift''),
      (''AppDelegate.swift'', ''App/AppDelegate.swift''),
      (''TunerScreen.swift'', ''App/TunerScreen.swift''),
      (''Models/Frequency.swift'', ''Core/Models/Audio/Frequency.swift''),
      (''Models/PitchTracker.swift'', ''Core/Models/Audio/PitchTracker.swift''),
      (''Models/Recorder.swift'', ''Core/Models/Audio/Recorder.swift''),
      (''Models/TunerData.swift'', ''Core/Models/Audio/TunerData.swift''),
      (''Models/ScaleNote.swift'', ''Core/Models/Music/ScaleNote.swift''),
      (''Models/NoteMatcher.swift'', ''Core/Models/Music/NoteMatcher.swift''),
      (''Models/ModifierPreference.swift'', ''Core/Models/Music/ModifierPreference.swift''),
      (''Models/UserProfile.swift'', ''Core/Models/User/UserProfile.swift''),
      (''Models/ReadingPassage.swift'', ''Core/Models/User/ReadingPassage.swift''),
      (''Models/SpotifyUserProfile.swift'', ''Core/Models/Spotify/SpotifyUserProfile.swift''),
      (''Models/StatisticsCalculator.swift'', ''Core/Utilities/StatisticsCalculator.swift''),
      (''UserProfileManager.swift'', ''Core/Services/User/UserProfileManager.swift''),
      (''Views/TunerView.swift'', ''Features/Tuner/Views/TunerView.swift''),
      (''Views/ProfileView.swift'', ''Features/Profile/Views/ProfileView.swift''),
      (''ViewModels/ReadingPassageViewModel.swift'',
       ''Features/ReadingPassage/ViewModels/ReadingPassageViewModel.swift''),
      (''ViewModels/WebReadingPassageViewModel.swift'',
       ''Features/ReadingPassage/ViewModels/WebReadingPassageViewModel.swift''),
      (''Helpers/Alignment.swift'', ''Supporting Files/Helpers/Alignment.swift''),
      (''Helpers/Color+MusicalDistance.swift'',
       ''Supporting Files/Helpers/Color+MusicalDistance.swift'')]"

definition base_path :: path where
  "base_path = ''/Users/davidnyman/Code/FrequencyFinder/FrequencyFinder''"

definition key_files :: "path list" where
  "key_files =
     [''App/FrequencyFinder.swift'',
      ''Core/Models/Spotify/SpotifyModels.swift'',
      ''Core/Services/Spotify/SpotifyManager.swift'',
      ''Features/Spotify/Views/SpotifyView.swift'']"

text \<open>\<^verbatim>\<open>base_path / file_path\<close>: an absolute right operand replaces the left one.\<close>

definition joinpath :: "path \<Rightarrow> path \<Rightarrow> path" where
  "joinpath base rel = (if rel \<noteq> [] \<and> hd rel = CHR ''/'' then rel else base @ ''/'' @ rel)"

text \<open>
  The lines of \<^verbatim>\<open>check_new_structure\<close>: the heading, a checkmark line and a cross line.
\<close>

datatype report = Checking | Present path | Missing path

text \<open>
  The checker reads the file system only through \<^verbatim>\<open>full_path.exists()\<close>, so the file
  system is the set of paths that exist. The loop keeps \<open>all_exist\<close> and the output.
\<close>

definition check_file :: "path set \<Rightarrow> bool \<times> report list \<Rightarrow> path \<Rightarrow> bool \<times> report list" where
  "check_file existing st file_path =
     (let full_path = joinpath base_path file_path
      in if full_path \<in> existing
         then (fst st, snd st @ [Present file_path])
         else (False, snd st @ [Missing file_path]))"

definition check_new_structure :: "path set \<Rightarrow> bool \<times> report list" where
  "check_new_structure existing = foldl (check_file existing) (True, [Checking]) key_files"

section \<open>The vocabulary of the claims: lines of a text\<close>

text \<open>
  The definitions of this section are not code of the scripts; the scripts never split a
  text into lines. They say what the specification means by a line: a text is a sequence
  of lines, each closed by a newline, followed by a last piece without newline (empty
  when the text ends with a newline). \<open>split_lines\<close> takes a text apart in this way and
  \<open>join_lines\<close> puts it together again.
\<close>

definition join_lines :: "string list \<Rightarrow> string \<Rightarrow> string" where
  "join_lines ls t = concat (map (\<lambda>l. l @ [newline]) ls) @ t"

fun split_lines :: "string \<Rightarrow> string list \<times> string" where
  "split_lines [] = ([], [])"
| "split_lines (c # s) =
     (case split_lines s of
        (ls, t) \<Rightarrow>
          if c = newline then ([] # ls, t)
          else (case ls of [] \<Rightarrow> ([], c # t) | l # ls' \<Rightarrow> ((c # l) # ls', t)))"

text \<open>
  A line that contains a file name of the removal list; in Python,
  \<^verbatim>\<open>any(old_file in l for old_file in old_files)\<close>.
\<close>

definition mentions_old_file :: "string \<Rightarrow> bool" where
  "mentions_old_file l = list_ex (\<lambda>old_file. sublist old_file l) old_files"

text \<open>
  For the proofs: the strings a pattern matches completely, by recursion on the pattern
  and without any order of preference among the matches.
\<close>

fun matches :: "regex \<Rightarrow> string \<Rightarrow> bool" where
  "matches [] s = (s = [])"
| "matches (One a # p) [] = False"
| "matches (One a # p) (x # s) = (atom_matches a x \<and> matches p s)"
| "matches (Star a # p) [] = matches p []"
| "matches (Star a # p) (x # s) =
     ((atom_matches a x \<and> matches (Star a # p) s) \<or> matches p (x # s))"

text \<open>
  A pattern that starts with \<^verbatim>\<open>.*\<close> and whose every match is a run of characters other
  than the newline followed by one newline.
\<close>

definition line_pattern :: "regex \<Rightarrow> bool" where
  "line_pattern p \<longleftrightarrow>
     (\<exists>q. p = Star Dot # q) \<and>
     (\<forall>m. matches p m \<longrightarrow> (\<exists>l. m = l @ [newline] \<and> newline \<notin> set l))"

text \<open>The common shape of the first and the third pattern.\<close>

definition two_words :: "string \<Rightarrow> string \<Rightarrow> regex" where
  "two_words F W = Star Dot # re_escape F @ Star Dot # re_escape W @ [Star Dot, One (Chr newline)]"

section \<open>The matcher finds a match exactly when there is one\<close>

lemma matches_skip_star: "matches p m \<Longrightarrow> matches (Star a # p) m"
  by (cases m) simp_all

lemma match_here_sound:
  "match_here p s = Some r \<Longrightarrow> \<exists>m. s = m @ r \<and> matches p m"
proof (induction p s arbitrary: r rule: match_here.induct)
  case (1 s)
  then show ?case by simp
next
  case (2 a p)
  then show ?case by simp
next
  case (3 a p x s)
  then obtain m where "s = m @ r" "matches p m" "atom_matches a x"
    by (auto split: if_splits)
  then have "x # s = (x # m) @ r \<and> matches (One a # p) (x # m)" by simp
  then show ?case by blast
next
  case (4 a p)
  then show ?case by (auto intro: matches_skip_star)
next
  case (5 a p x s)
  show ?case
  proof (cases "atom_matches a x \<and> match_here (Star a # p) s \<noteq> None")
    case True
    with 5 obtain m where "s = m @ r" "matches (Star a # p) m"
      by (auto split: option.splits)
    with True have "x # s = (x # m) @ r \<and> matches (Star a # p) (x # m)" by simp
    then show ?thesis by blast
  next
    case False
    with "5.prems" have "match_here p (x # s) = Some r"
      by (auto split: if_splits option.splits)
    with False 5 obtain m where "x # s = m @ r" "matches p m"
      by (auto split: if_splits option.splits)
    then show ?thesis using matches_skip_star by blast
  qed
qed

lemma match_here_complete:
  "matches p m \<Longrightarrow> match_here p (m @ r) \<noteq> None"
proof (induction p m arbitrary: r rule: matches.induct)
  case (4 a p)
  then have *: "\<And>r. match_here p r \<noteq> None" by simp
  show ?case
  proof (induction r)
    case Nil
    then show ?case using * by simp
  next
    case (Cons x r)
    then show ?case using * by (auto split: option.splits)
  qed
next
  case (5 a p x s)
  from "5.prems" consider "atom_matches a x" "matches (Star a # p) s" | "matches p (x # s)"
    by auto
  then show ?case
  proof cases
    case 1
    with "5.IH"(1) have "match_here (Star a # p) (s @ r) \<noteq> None" by blast
    with 1 show ?thesis by (auto split: option.splits)
  next
    case 2
    with "5.IH"(2) have "match_here p (x # s @ r) \<noteq> None" by simp
    then show ?thesis by (auto split: option.splits)
  qed
qed auto

lemma matches_escape:
  "matches (re_escape F @ p) s \<longleftrightarrow> (\<exists>t. s = F @ t \<and> matches p t)"
proof (induction F arbitrary: s)
  case Nil
  then show ?case by (simp add: re_escape_def)
next
  case (Cons c F)
  then show ?case by (cases s) (auto simp: re_escape_def)
qed

lemma matches_star_dot:
  "matches (Star Dot # p) s \<longleftrightarrow> (\<exists>a t. s = a @ t \<and> newline \<notin> set a \<and> matches p t)"
proof (induction s)
  case Nil
  then show ?case by simp
next
  case (Cons x s)
  show ?case
  proof
    assume "matches (Star Dot # p) (x # s)"
    then consider "x \<noteq> newline" "matches (Star Dot # p) s" | "matches p (x # s)"
      by auto
    then show "\<exists>a t. x # s = a @ t \<and> newline \<notin> set a \<and> matches p t"
    proof cases
      case 1
      with Cons obtain a t where "s = a @ t" "newline \<notin> set a" "matches p t" by blast
      with 1 have "x # s = (x # a) @ t \<and> newline \<notin> set (x # a) \<and> matches p t" by simp
      then show ?thesis by blast
    next
      case 2
      then have "x # s = [] @ (x # s) \<and> newline \<notin> set [] \<and> matches p (x # s)" by simp
      then show ?thesis by blast
    qed
  next
    assume "\<exists>a t. x # s = a @ t \<and> newline \<notin> set a \<and> matches p t"
    then obtain a t where at: "x # s = a @ t" "newline \<notin> set a" "matches p t" by blast
    show "matches (Star Dot # p) (x # s)"
    proof (cases a)
      case Nil
      with at have "matches p (x # s)" by simp
      then show ?thesis by (rule matches_skip_star)
    next
      case (Cons y a')
      with at have "x \<noteq> newline" "s = a' @ t" "newline \<notin> set a'" by auto
      with at Cons.IH show ?thesis by auto
    qed
  qed
qed

lemma matches_newline: "matches [One (Chr newline)] s \<longleftrightarrow> s = [newline]"
  by (cases s) auto

section \<open>Substitution with a line pattern filters lines\<close>

lemma match_line_end:
  assumes "line_pattern p" "match_here p s = Some r"
  shows "\<exists>l. s = l @ newline # r \<and> newline \<notin> set l \<and> matches p (l @ [newline])"
proof -
  from assms(2) obtain m where m: "s = m @ r" "matches p m"
    using match_here_sound by blast
  with assms(1) obtain l where "m = l @ [newline]" "newline \<notin> set l"
    unfolding line_pattern_def by blast
  with m show ?thesis by auto
qed

lemma no_newline_no_match:
  assumes "line_pattern p" "newline \<notin> set s"
  shows "match_here p s = None"
proof (cases "match_here p s")
  case (Some r)
  with assms(1) obtain l where "s = l @ newline # r"
    using match_line_end by blast
  with assms(2) show ?thesis by simp
qed simp

lemma re_sub_no_newline:
  "line_pattern p \<Longrightarrow> newline \<notin> set t \<Longrightarrow> re_sub p t = t"
proof (induction t)
  case Nil
  then show ?case by simp
next
  case (Cons x t)
  then have "match_here p (x # t) = None" by (intro no_newline_no_match) auto
  with Cons show ?case by simp
qed

lemma first_newline_unique:
  "l @ newline # r = l' @ newline # r' \<Longrightarrow> newline \<notin> set l \<Longrightarrow> newline \<notin> set l' \<Longrightarrow>
     l = l' \<and> r = r'"
proof (induction l arbitrary: l')
  case Nil
  then show ?case by (cases l') auto
next
  case (Cons x l)
  then show ?case by (cases l') auto
qed

lemma match_whole_line:
  assumes "line_pattern p" "newline \<notin> set l" "matches p (l @ [newline])"
  shows "match_here p (l @ newline # rest) = Some rest"
proof -
  from assms(3) have "match_here p ((l @ [newline]) @ rest) \<noteq> None"
    by (rule match_here_complete)
  then obtain r where r: "match_here p (l @ newline # rest) = Some r" by auto
  with assms(1) obtain l' where "l @ newline # rest = l' @ newline # r" "newline \<notin> set l'"
    using match_line_end by blast
  with assms(2) have "rest = r" using first_newline_unique by blast
  with r show ?thesis by simp
qed

lemma re_sub_drop_line:
  assumes "line_pattern p" "newline \<notin> set l" "matches p (l @ [newline])"
  shows "re_sub p (l @ newline # rest) = re_sub p rest"
proof -
  have m: "match_here p (l @ newline # rest) = Some rest"
    using assms by (rule match_whole_line)
  show ?thesis
  proof (cases l)
    case Nil
    with m show ?thesis by simp
  next
    case (Cons x l')
    with m show ?thesis by simp
  qed
qed

lemma matches_extend_left:
  assumes "line_pattern p" "matches p s" "x \<noteq> newline"
  shows "matches p (x # s)"
proof -
  from assms(1) obtain q where "p = Star Dot # q" unfolding line_pattern_def by blast
  with assms(2,3) show ?thesis by simp
qed

lemma no_match_in_line:
  assumes "line_pattern p" "newline \<notin> set l" "\<not> matches p (l @ [newline])"
  shows "match_here p (l @ newline # rest) = None"
proof (cases "match_here p (l @ newline # rest)")
  case (Some r)
  with assms(1) obtain l' where l': "l @ newline # rest = l' @ newline # r"
      "newline \<notin> set l'" "matches p (l' @ [newline])"
    using match_line_end by blast
  with assms(2) have "l = l'" using first_newline_unique by blast
  with l' assms(3) show ?thesis by simp
qed simp

lemma re_sub_keep_line:
  assumes "line_pattern p"
  shows "newline \<notin> set l \<Longrightarrow> \<not> matches p (l @ [newline]) \<Longrightarrow>
    re_sub p (l @ newline # rest) = l @ newline # re_sub p rest"
proof (induction l)
  case Nil
  with assms have "match_here p ([] @ newline # rest) = None"
    by (intro no_match_in_line) auto
  then show ?case by simp
next
  case (Cons x l)
  with assms have "match_here p ((x # l) @ newline # rest) = None"
    by (intro no_match_in_line) auto
  moreover from Cons.prems assms have "\<not> matches p (l @ [newline])"
    using matches_extend_left [of p "l @ [newline]" x] by auto
  ultimately show ?case using Cons by simp
qed

lemma re_sub_lines:
  assumes "line_pattern p" "newline \<notin> set t"
  shows "\<forall>l\<in>set ls. newline \<notin> set l \<Longrightarrow>
    re_sub p (join_lines ls t) = join_lines (filter (\<lambda>l. \<not> matches p (l @ [newline])) ls) t"
proof (induction ls)
  case Nil
  with assms show ?case by (simp add: join_lines_def re_sub_no_newline)
next
  case (Cons l ls)
  then have IH: "re_sub p (join_lines ls t) =
      join_lines (filter (\<lambda>l. \<not> matches p (l @ [newline])) ls) t"
    and l: "newline \<notin> set l" by auto
  have split: "join_lines (l # ls) t = l @ newline # join_lines ls t"
    by (simp add: join_lines_def)
  show ?case
  proof (cases "matches p (l @ [newline])")
    case True
    with assms(1) l have "re_sub p (join_lines (l # ls) t) = re_sub p (join_lines ls t)"
      unfolding split by (intro re_sub_drop_line)
    with True IH show ?thesis by simp
  next
    case False
    with assms(1) l have "re_sub p (join_lines (l # ls) t) = l @ newline # re_sub p (join_lines ls t)"
      unfolding split by (intro re_sub_keep_line)
    with False IH show ?thesis by (simp add: join_lines_def)
  qed
qed

subsection \<open>The three patterns delete whole lines\<close>

lemma matches_pattern_b:
  "matches (pattern_b F) m \<longleftrightarrow>
     (\<exists>a c. m = a @ F @ c @ [newline] \<and> newline \<notin> set a \<and> newline \<notin> set c)"
proof -
  have "matches (pattern_b F) m \<longleftrightarrow>
    (\<exists>a t. m = a @ t \<and> newline \<notin> set a \<and> (\<exists>u. t = F @ u \<and>
       (\<exists>c w. u = c @ w \<and> newline \<notin> set c \<and> w = [newline])))"
    unfolding pattern_b_def matches_star_dot matches_escape matches_newline ..
  also have "\<dots> \<longleftrightarrow> (\<exists>a c. m = a @ F @ c @ [newline] \<and>
      newline \<notin> set a \<and> newline \<notin> set c)"
    by blast
  finally show ?thesis .
qed

lemma matches_two_words:
  "matches (two_words F W) m \<longleftrightarrow>
     (\<exists>a b c. m = a @ F @ b @ W @ c @ [newline] \<and> newline \<notin> set a \<and> newline \<notin> set b \<and> newline \<notin> set c)"
proof -
  have "matches (two_words F W) m \<longleftrightarrow>
    (\<exists>a t. m = a @ t \<and> newline \<notin> set a \<and> (\<exists>u. t = F @ u \<and>
       (\<exists>b v. u = b @ v \<and> newline \<notin> set b \<and> (\<exists>w. v = W @ w \<and>
          (\<exists>c x. w = c @ x \<and> newline \<notin> set c \<and> x = [newline])))))"
    unfolding two_words_def matches_star_dot matches_escape matches_newline ..
  also have "\<dots> \<longleftrightarrow> (\<exists>a b c. m = a @ F @ b @ W @ c @ [newline] \<and>
      newline \<notin> set a \<and> newline \<notin> set b \<and> newline \<notin> set c)"
    by blast
  finally show ?thesis .
qed

lemma line_pattern_b: "newline \<notin> set F \<Longrightarrow> line_pattern (pattern_b F)"
  unfolding line_pattern_def matches_pattern_b
  by (auto simp: pattern_b_def)

lemma line_pattern_two_words:
  "newline \<notin> set F \<Longrightarrow> newline \<notin> set W \<Longrightarrow> line_pattern (two_words F W)"
  unfolding line_pattern_def matches_two_words
  by (auto simp: two_words_def)

lemma line_matches_b:
  assumes "newline \<notin> set l"
  shows "matches (pattern_b F) (l @ [newline]) \<longleftrightarrow> sublist F l"
  unfolding matches_pattern_b sublist_def using assms
  by (auto) (metis append.assoc)+

lemma line_matches_two_words:
  assumes "matches (two_words F W) (l @ [newline])"
  shows "sublist F l"
proof -
  from assms obtain a b c where "l @ [newline] = a @ F @ b @ W @ c @ [newline]"
    unfolding matches_two_words by blast
  then have "l = a @ F @ (b @ W @ c)" by simp
  then show ?thesis unfolding sublist_def by blast
qed

section \<open>Splitting and joining lines\<close>

lemma join_lines_Cons: "join_lines (l # ls) t = l @ newline # join_lines ls t"
  by (simp add: join_lines_def)

lemma join_lines_Nil: "join_lines [] t = t"
  by (simp add: join_lines_def)

lemma join_lines_tail: "join_lines ls t = join_lines ls [] @ t"
  by (simp add: join_lines_def)

lemma split_lines_newline_free_tail: "newline \<notin> set t \<Longrightarrow> split_lines t = ([], t)"
  by (induction t) auto

lemma split_lines_join:
  "\<forall>l\<in>set ls. newline \<notin> set l \<Longrightarrow> newline \<notin> set t \<Longrightarrow> split_lines (join_lines ls t) = (ls, t)"
proof (induction ls)
  case Nil
  then show ?case by (simp add: join_lines_Nil split_lines_newline_free_tail)
next
  case (Cons l ls)
  then have IH: "split_lines (join_lines ls t) = (ls, t)" and l: "newline \<notin> set l" by auto
  from l have "split_lines (l @ newline # join_lines ls t) = (l # ls, t)"
    by (induction l) (auto simp: IH)
  then show ?case by (simp add: join_lines_Cons)
qed

lemma split_lines_sound:
  "split_lines s = (ls, t) \<Longrightarrow>
     s = join_lines ls t \<and> (\<forall>l\<in>set ls. newline \<notin> set l) \<and> newline \<notin> set t"
proof (induction s arbitrary: ls t)
  case Nil
  then show ?case by (simp add: join_lines_Nil)
next
  case (Cons c s)
  obtain ls0 t0 where s: "split_lines s = (ls0, t0)" by (cases "split_lines s")
  with Cons.IH have IH: "s = join_lines ls0 t0" "\<forall>l\<in>set ls0. newline \<notin> set l" "newline \<notin> set t0"
    by auto
  show ?case
  proof (cases "c = newline")
    case True
    with Cons.prems s have "ls = [] # ls0" "t = t0" by auto
    with True IH show ?thesis by (simp add: join_lines_Cons)
  next
    case False
    show ?thesis
    proof (cases ls0)
      case Nil
      with False Cons.prems s have "ls = []" "t = c # t0" by auto
      with False IH Nil show ?thesis by (simp add: join_lines_Nil)
    next
      case (Cons l ls')
      with False Cons.prems s have "ls = (c # l) # ls'" "t = t0" by auto
      with False IH Cons show ?thesis by (simp add: join_lines_Cons)
    qed
  qed
qed

lemma length_join_filter:
  "length (join_lines (filter P ls) t) \<le> length (join_lines ls t)"
  by (induction ls) (auto simp: join_lines_Cons join_lines_Nil)

lemma join_filter_same_length:
  "length (join_lines (filter P ls) t) = length (join_lines ls t) \<Longrightarrow> filter P ls = ls"
proof (induction ls)
  case Nil
  then show ?case by simp
next
  case (Cons l ls)
  show ?case
  proof (cases "P l")
    case True
    with Cons show ?thesis by (simp add: join_lines_Cons)
  next
    case False
    have "length (join_lines (filter P ls) t) \<le> length (join_lines ls t)"
      by (rule length_join_filter)
    with False Cons.prems have False by (simp add: join_lines_Cons)
    then show ?thesis ..
  qed
qed

subsection \<open>The loop of the cleaner keeps the lines that mention no old file\<close>

lemma newline_not_in_words:
  "newline \<notin> set ''in Sources''" "newline \<notin> set ''Sources''"
  by (simp_all add: newline_def)

lemma old_files_newline_free: "F \<in> set old_files \<Longrightarrow> newline \<notin> set F"
  by (auto simp: old_files_def newline_def)

lemma pattern_a_two_words: "pattern_a F = two_words F ''in Sources''"
  by (simp add: pattern_a_def two_words_def)

lemma pattern_c_two_words: "pattern_c F = two_words F ''Sources''"
  by (simp add: pattern_c_def two_words_def)

lemma filter_subsumed:
  assumes "\<And>l. l \<in> set ls \<Longrightarrow> Q l \<Longrightarrow> P l"
  shows "filter (\<lambda>l. \<not> P l) (filter (\<lambda>l. \<not> Q l) ls) = filter (\<lambda>l. \<not> P l) ls"
    and "filter (\<lambda>l. \<not> Q l) (filter (\<lambda>l. \<not> P l) ls) = filter (\<lambda>l. \<not> P l) ls"
  using assms by (induction ls) auto

lemma re_sub_pattern_b_lines:
  assumes "newline \<notin> set F" "newline \<notin> set t" "\<forall>l\<in>set ls. newline \<notin> set l"
  shows "re_sub (pattern_b F) (join_lines ls t) = join_lines (filter (\<lambda>l. \<not> sublist F l) ls) t"
proof -
  have "filter (\<lambda>l. \<not> matches (pattern_b F) (l @ [newline])) ls = filter (\<lambda>l. \<not> sublist F l) ls"
    using assms(3) by (intro filter_cong) (auto simp: line_matches_b)
  with assms show ?thesis by (simp add: re_sub_lines line_pattern_b)
qed

lemma remove_references_lines:
  assumes F: "newline \<notin> set F" and t: "newline \<notin> set t" and ls: "\<forall>l\<in>set ls. newline \<notin> set l"
  shows "remove_references (join_lines ls t) F = join_lines (filter (\<lambda>l. \<not> sublist F l) ls) t"
proof -
  let ?A = "\<lambda>l. matches (pattern_a F) (l @ [newline])"
  let ?C = "\<lambda>l. matches (pattern_c F) (l @ [newline])"
  let ?B = "\<lambda>l. sublist F l"
  have A: "\<And>l. ?A l \<Longrightarrow> ?B l" and C: "\<And>l. ?C l \<Longrightarrow> ?B l"
    by (auto simp: pattern_a_two_words pattern_c_two_words dest: line_matches_two_words)
  have lpa: "line_pattern (pattern_a F)" and lpc: "line_pattern (pattern_c F)"
    unfolding pattern_a_two_words pattern_c_two_words
    using F newline_not_in_words by (blast intro: line_pattern_two_words)+
  have 1: "re_sub (pattern_a F) (join_lines ls t) = join_lines (filter (\<lambda>l. \<not> ?A l) ls) t"
    using lpa t ls by (rule re_sub_lines)
  have ls1: "\<forall>l\<in>set (filter (\<lambda>l. \<not> ?A l) ls). newline \<notin> set l"
    using ls by simp
  have 2: "re_sub (pattern_b F) (join_lines (filter (\<lambda>l. \<not> ?A l) ls) t)
      = join_lines (filter (\<lambda>l. \<not> ?B l) (filter (\<lambda>l. \<not> ?A l) ls)) t"
    using F t ls1 by (rule re_sub_pattern_b_lines)
  have 3: "filter (\<lambda>l. \<not> ?B l) (filter (\<lambda>l. \<not> ?A l) ls) = filter (\<lambda>l. \<not> ?B l) ls"
    using A by (intro filter_subsumed(1)) 
  have ls2: "\<forall>l\<in>set (filter (\<lambda>l. \<not> ?B l) ls). newline \<notin> set l"
    using ls by simp
  have 4: "re_sub (pattern_c F) (join_lines (filter (\<lambda>l. \<not> ?B l) ls) t)
      = join_lines (filter (\<lambda>l. \<not> ?C l) (filter (\<lambda>l. \<not> ?B l) ls)) t"
    using lpc t ls2 by (rule re_sub_lines)
  have 5: "filter (\<lambda>l. \<not> ?C l) (filter (\<lambda>l. \<not> ?B l) ls) = filter (\<lambda>l. \<not> ?B l) ls"
    using C by (intro filter_subsumed(2))
  show ?thesis
    unfolding remove_references_def 1 2 3 4 5 ..
qed

lemma foldl_remove_references_lines:
  assumes t: "newline \<notin> set t"
  shows "\<forall>F\<in>set Fs. newline \<notin> set F \<Longrightarrow> \<forall>l\<in>set ls. newline \<notin> set l \<Longrightarrow>
    foldl remove_references (join_lines ls t) Fs
      = join_lines (filter (\<lambda>l. \<not> list_ex (\<lambda>F. sublist F l) Fs) ls) t"
proof (induction Fs arbitrary: ls)
  case Nil
  then show ?case by simp
next
  case (Cons F Fs)
  then have F: "newline \<notin> set F" by simp
  have ls1: "\<forall>l\<in>set (filter (\<lambda>l. \<not> sublist F l) ls). newline \<notin> set l"
    using Cons.prems by simp
  have "foldl remove_references (join_lines ls t) (F # Fs)
      = foldl remove_references (join_lines (filter (\<lambda>l. \<not> sublist F l) ls) t) Fs"
    using F t Cons.prems by (simp add: remove_references_lines)
  also have "\<dots> = join_lines (filter (\<lambda>l. \<not> list_ex (\<lambda>F. sublist F l) Fs)
      (filter (\<lambda>l. \<not> sublist F l) ls)) t"
    using Cons.prems ls1 by (intro Cons.IH) auto
  also have "\<dots> = join_lines (filter (\<lambda>l. \<not> list_ex (\<lambda>F. sublist F l) (F # Fs)) ls) t"
    by (simp add: conj_commute)
  finally show ?case .
qed

lemma clean_content_join:
  assumes "\<forall>l\<in>set ls. newline \<notin> set l" "newline \<notin> set t"
  shows "clean_content (join_lines ls t) = join_lines (filter (\<lambda>l. \<not> mentions_old_file l) ls) t"
  unfolding clean_content_def mentions_old_file_def
  using assms old_files_newline_free by (intro foldl_remove_references_lines) auto

section \<open>Facts about the run of the cleaner and about the checker's loop\<close>

lemma backup_file_eq: "backup_file = project_file @ ''.backup''"
  by (simp add: backup_file_def with_suffix_def path_suffix_def path_name_def project_file_def)

lemma backup_file_neq: "backup_file \<noteq> project_file" "project_file \<noteq> backup_file"
  by (simp_all add: backup_file_eq)

lemma clean_content_idem: "clean_content (clean_content c) = clean_content c"
proof -
  obtain ls t where "split_lines c = (ls, t)" by (cases "split_lines c")
  then have c: "c = join_lines ls t" and nl: "\<forall>l\<in>set ls. newline \<notin> set l" "newline \<notin> set t"
    using split_lines_sound by blast+
  let ?keep = "\<lambda>l. \<not> mentions_old_file l"
  have 1: "clean_content c = join_lines (filter ?keep ls) t"
    unfolding c using nl by (rule clean_content_join)
  have "\<forall>l\<in>set (filter ?keep ls). newline \<notin> set l" using nl by simp
  then have "clean_content (join_lines (filter ?keep ls) t) = join_lines (filter ?keep (filter ?keep ls)) t"
    using nl(2) by (rule clean_content_join)
  with 1 show ?thesis by simp
qed

lemma clean_content_same_length:
  assumes "length (clean_content c) = length c"
  shows "clean_content c = c"
proof -
  obtain ls t where "split_lines c = (ls, t)" by (cases "split_lines c")
  then have c: "c = join_lines ls t" and nl: "\<forall>l\<in>set ls. newline \<notin> set l" "newline \<notin> set t"
    using split_lines_sound by blast+
  let ?keep = "\<lambda>l. \<not> mentions_old_file l"
  have 1: "clean_content c = join_lines (filter ?keep ls) t"
    unfolding c using nl by (rule clean_content_join)
  with assms c have "filter ?keep ls = ls"
    by (intro join_filter_same_length [where t = t]) simp
  with 1 c show ?thesis by simp
qed

lemma run_on_existing:
  assumes "fs project_file = Some c"
  shows "clean_xcode_references fs =
    Inr (if length (clean_content c) \<noteq> length c
         then \<lparr>returned = True,
               printed = [CreatedBackup backup_file,
                          Cleaned (int (length c) - int (length (clean_content c))),
                          NowCleanBuildFolder],
               files = fs(backup_file \<mapsto> c, project_file \<mapsto> clean_content c),
               written = [backup_file, project_file]\<rparr>
         else \<lparr>returned = False,
               printed = [CreatedBackup backup_file, NoOldReferences],
               files = fs(backup_file \<mapsto> c),
               written = [backup_file]\<rparr>)"
  using assms
  by (simp add: clean_xcode_references_def path_exists_def copy2_def read_text_def
      write_text_def backup_file_neq Let_def)

lemma removal_patterns_line:
  assumes "old_file \<in> set old_files"
    and "p \<in> {pattern_a old_file, pattern_b old_file, pattern_c old_file}"
  shows "line_pattern p"
proof -
  from assms(1) have F: "newline \<notin> set old_file" by (rule old_files_newline_free)
  have "line_pattern (pattern_a old_file)" "line_pattern (pattern_c old_file)"
    unfolding pattern_a_two_words pattern_c_two_words
    using F newline_not_in_words by (blast intro: line_pattern_two_words)+
  moreover have "line_pattern (pattern_b old_file)" using F by (rule line_pattern_b)
  ultimately show ?thesis using assms(2) by auto
qed

lemma terminated_tail_empty:
  assumes "split_lines body = (ls, t)" "body = [] \<or> last body = newline"
  shows "t = []"
proof (rule ccontr)
  assume t: "t \<noteq> []"
  from assms(1) have b: "body = join_lines ls [] @ t" and nl: "newline \<notin> set t"
    using split_lines_sound join_lines_tail by metis+
  from b t have "body \<noteq> []" "last body = last t" by simp_all
  with assms(2) have "last t = newline" by simp
  with t nl show False using last_in_set by metis
qed

lemma check_loop:
  "foldl (check_file existing) (b, out) fs =
     (b \<and> list_all (\<lambda>f. joinpath base_path f \<in> existing) fs,
      out @ map (\<lambda>f. if joinpath base_path f \<in> existing then Present f else Missing f) fs)"
  by (induction fs arbitrary: b out) (auto simp: check_file_def Let_def)

lemma check_new_structure_eq:
  "check_new_structure existing =
     (list_all (\<lambda>f. joinpath base_path f \<in> existing) key_files,
      Checking # map (\<lambda>f. if joinpath base_path f \<in> existing then Present f else Missing f) key_files)"
  by (simp add: check_new_structure_def check_loop)

section \<open>Claims about the Reference Cleaner\<close>

text \<open>
  C1, as the code has it. The loop of the cleaner removes every newline-terminated line
  that contains a file name of the removal list and leaves every other line, and the
  last piece of the text when it is not closed by a newline, unchanged and in place.
  On the manifest with the two lines
  \<^verbatim>\<open>A.build /* OldSpotifyManager.swift in Sources */\<close> and
  \<^verbatim>\<open>B.build /* OtherFile.swift in Sources */\<close> only the second line remains.
\<close>

theorem clean_content_filters_lines:
  "split_lines content = (ls, t) \<Longrightarrow>
     content = join_lines ls t \<and>
     (\<forall>l\<in>set ls. newline \<notin> set l) \<and> newline \<notin> set t \<and>
     clean_content content = join_lines (filter (\<lambda>l. \<not> mentions_old_file l) ls) t"
proof -
  assume s: "split_lines content = (ls, t)"
  then have c: "content = join_lines ls t" and nl: "\<forall>l\<in>set ls. newline \<notin> set l" "newline \<notin> set t"
    using split_lines_sound by blast+
  from nl have "clean_content (join_lines ls t) = join_lines (filter (\<lambda>l. \<not> mentions_old_file l) ls) t"
    by (rule clean_content_join)
  with c nl show ?thesis by simp
qed

text \<open>The example of C1: both lines closed by a newline, the first one goes.\<close>

theorem clean_content_filters_lines_witness:
  "split_lines (''A.build /* OldSpotifyManager.swift in Sources */'' @ [newline] @
                ''B.build /* OtherFile.swift in Sources */'' @ [newline])
     = ([''A.build /* OldSpotifyManager.swift in Sources */'',
         ''B.build /* OtherFile.swift in Sources */''], [])
   \<and> clean_content (''A.build /* OldSpotifyManager.swift in Sources */'' @ [newline] @
                ''B.build /* OtherFile.swift in Sources */'' @ [newline])
     = ''B.build /* OtherFile.swift in Sources */'' @ [newline]"
proof -
  have h: "split_lines (''A.build /* OldSpotifyManager.swift in Sources */'' @ [newline] @
                ''B.build /* OtherFile.swift in Sources */'' @ [newline])
     = ([''A.build /* OldSpotifyManager.swift in Sources */'',
         ''B.build /* OtherFile.swift in Sources */''], [])"
    by code_simp
  have e: "join_lines (filter (\<lambda>l. \<not> mentions_old_file l)
        [''A.build /* OldSpotifyManager.swift in Sources */'',
         ''B.build /* OtherFile.swift in Sources */'']) []
     = ''B.build /* OtherFile.swift in Sources */'' @ [newline]"
    by code_simp
  from clean_content_filters_lines [OF h]
  have "clean_content (''A.build /* OldSpotifyManager.swift in Sources */'' @ [newline] @
                ''B.build /* OtherFile.swift in Sources */'' @ [newline])
     = join_lines (filter (\<lambda>l. \<not> mentions_old_file l)
        [''A.build /* OldSpotifyManager.swift in Sources */'',
         ''B.build /* OtherFile.swift in Sources */'']) []"
    by blast
  then have "clean_content (''A.build /* OldSpotifyManager.swift in Sources */'' @ [newline] @
                ''B.build /* OtherFile.swift in Sources */'' @ [newline])
     = ''B.build /* OtherFile.swift in Sources */'' @ [newline]"
    using e by (rule trans)
  with h show ?thesis by (rule conjI)
qed

text \<open>
  C1 as stated fails: a last line that is not closed by a newline stays, although it
  contains a file name of the removal list.
\<close>

theorem unterminated_reference_survives:
  "mentions_old_file ''/* OldSpotifyManager.swift */'' \<and>
   clean_content (''ok'' @ [newline] @ ''/* OldSpotifyManager.swift */'')
     = ''ok'' @ [newline] @ ''/* OldSpotifyManager.swift */''"
  by code_simp

text \<open>
  C3. The transform is idempotent, and a second run of the cleaner on the file system
  the first run left behind finds the manifest already clean: it returns \<open>False\<close>,
  prints "No old file references found", writes only the backup and leaves the
  manifest as the first run left it.
\<close>

theorem cleaner_idempotent:
  "fs project_file = Some c \<Longrightarrow>
     clean_content (clean_content c) = clean_content c \<and>
     (\<exists>r1 r2. clean_xcode_references fs = Inr r1 \<and>
        files r1 project_file = Some (clean_content c) \<and>
        clean_xcode_references (files r1) = Inr r2 \<and>
        returned r2 = False \<and>
        printed r2 = [CreatedBackup backup_file, NoOldReferences] \<and>
        written r2 = [backup_file] \<and>
        files r2 project_file = Some (clean_content c))"
proof -
  assume fs: "fs project_file = Some c"
  have "\<exists>r1. clean_xcode_references fs = Inr r1 \<and>
      files r1 project_file = Some (clean_content c)"
  proof (cases "length (clean_content c) = length c")
    case True
    then have "clean_content c = c" by (rule clean_content_same_length)
    with True fs run_on_existing [of fs c, OF fs] show ?thesis
      by (simp add: backup_file_neq)
  next
    case False
    with run_on_existing [of fs c, OF fs] show ?thesis
      by (simp add: backup_file_neq)
  qed
  then obtain r1 where r1: "clean_xcode_references fs = Inr r1"
    and f1: "files r1 project_file = Some (clean_content c)"
    by blast
  have len: "length (clean_content (clean_content c)) = length (clean_content c)"
    by (simp add: clean_content_idem)
  have "\<exists>r2. clean_xcode_references (files r1) = Inr r2 \<and>
      returned r2 = False \<and>
      printed r2 = [CreatedBackup backup_file, NoOldReferences] \<and>
      written r2 = [backup_file] \<and>
      files r2 project_file = Some (clean_content c)"
    using run_on_existing [of "files r1" "clean_content c", OF f1] len f1
    by (simp add: backup_file_neq)
  with r1 f1 show ?thesis by (simp add: clean_content_idem)
qed

text \<open>A manifest whose first line goes in the first run; the second run changes nothing.\<close>

theorem cleaner_idempotent_witness:
  "[project_file \<mapsto> ''/* OldSpotifyManager.swift */'' @ [newline] @ ''ok''] project_file = Some (''/* OldSpotifyManager.swift */'' @ [newline] @ ''ok'') \<and>
   clean_content (clean_content (''/* OldSpotifyManager.swift */'' @ [newline] @ ''ok'')) = clean_content (''/* OldSpotifyManager.swift */'' @ [newline] @ ''ok'') \<and>
   clean_content (''/* OldSpotifyManager.swift */'' @ [newline] @ ''ok'') = ''ok'' \<and>
   (\<exists>r1 r2. clean_xcode_references [project_file \<mapsto> ''/* OldSpotifyManager.swift */'' @ [newline] @ ''ok''] = Inr r1 \<and>
      files r1 project_file = Some ''ok'' \<and>
      clean_xcode_references (files r1) = Inr r2 \<and>
      returned r2 = False \<and>
      printed r2 = [CreatedBackup backup_file, NoOldReferences] \<and>
      written r2 = [backup_file] \<and>
      files r2 project_file = Some ''ok'')"
proof -
  have c: "clean_content (''/* OldSpotifyManager.swift */'' @ [newline] @ ''ok'') = ''ok''"
    by code_simp
  from cleaner_idempotent [of "[project_file \<mapsto> ''/* OldSpotifyManager.swift */'' @ [newline] @ ''ok'']" "''/* OldSpotifyManager.swift */'' @ [newline] @ ''ok''"]
  show ?thesis unfolding c by simp
qed

text \<open>
  C4. Whenever the cleaner runs on an existing manifest, the backup file afterwards
  holds the content the manifest had before the run, also when no reference is found
  and the manifest stays as it was.
\<close>

theorem backup_equals_original:
  "fs project_file = Some c \<Longrightarrow>
     \<exists>r. clean_xcode_references fs = Inr r \<and> files r backup_file = Some c \<and>
         (length (clean_content c) = length c \<longrightarrow> files r project_file = Some c)"
  using run_on_existing [of fs c] by (simp add: backup_file_neq)

text \<open>A run that finds no reference still leaves the backup.\<close>

theorem backup_equals_original_witness:
  "[project_file \<mapsto> ''ok''] project_file = Some ''ok'' \<and>
   (\<exists>r. clean_xcode_references [project_file \<mapsto> ''ok''] = Inr r \<and>
        files r backup_file = Some ''ok'' \<and> files r project_file = Some ''ok'')"
proof -
  have "length (clean_content ''ok'') = length ''ok''" by code_simp
  with backup_equals_original [of "[project_file \<mapsto> ''ok'']" "''ok''"]
  show ?thesis by auto
qed

text \<open>
  C5. When the manifest does not exist the cleaner returns \<open>False\<close>, prints "not found",
  opens no file for writing and leaves the file system as it was: no backup appears.
\<close>

theorem missing_manifest_no_change:
  "fs project_file = None \<Longrightarrow>
     clean_xcode_references fs = Inr \<lparr>returned = False, printed = [NotFound], files = fs, written = []\<rparr>"
  by (simp add: clean_xcode_references_def path_exists_def)

text \<open>The empty file system.\<close>

theorem missing_manifest_no_change_witness:
  "Map.empty project_file = None \<and>
   clean_xcode_references Map.empty
     = Inr \<lparr>returned = False, printed = [NotFound], files = Map.empty, written = []\<rparr>"
  using missing_manifest_no_change [of Map.empty] by simp

text \<open>
  C6. The manifest is written exactly when the length of the transformed text differs
  from the original length. With equal lengths the run prints "No old file references
  found", returns \<open>False\<close> and only the backup is new; otherwise the manifest is
  overwritten with the transformed text and the run reports the original length minus
  the new length.
\<close>

theorem write_iff_length_changed:
  "fs project_file = Some c \<Longrightarrow>
     \<exists>r. clean_xcode_references fs = Inr r \<and>
       (project_file \<in> set (written r) \<longleftrightarrow> length (clean_content c) \<noteq> length c) \<and>
       (length (clean_content c) = length c \<longrightarrow>
          returned r = False \<and>
          printed r = [CreatedBackup backup_file, NoOldReferences] \<and>
          files r = fs(backup_file \<mapsto> c) \<and> files r project_file = Some c) \<and>
       (length (clean_content c) \<noteq> length c \<longrightarrow>
          returned r = True \<and>
          printed r = [CreatedBackup backup_file,
                       Cleaned (int (length c) - int (length (clean_content c))),
                       NowCleanBuildFolder] \<and>
          files r = fs(backup_file \<mapsto> c, project_file \<mapsto> clean_content c))"
  using run_on_existing [of fs c] by (simp add: backup_file_neq)

text \<open>A manifest of 32 characters that loses a line of 30.\<close>

theorem write_iff_length_changed_witness:
  "[project_file \<mapsto> ''/* OldSpotifyManager.swift */'' @ [newline] @ ''ok''] project_file
     = Some (''/* OldSpotifyManager.swift */'' @ [newline] @ ''ok'') \<and>
   (\<exists>r. clean_xcode_references
          [project_file \<mapsto> ''/* OldSpotifyManager.swift */'' @ [newline] @ ''ok''] = Inr r \<and>
        project_file \<in> set (written r) \<and> returned r = True \<and>
        printed r = [CreatedBackup backup_file, Cleaned 30, NowCleanBuildFolder] \<and>
        files r project_file = Some ''ok'')"
proof -
  have c: "clean_content (''/* OldSpotifyManager.swift */'' @ [newline] @ ''ok'') = ''ok''"
    by code_simp
  have l: "length (''/* OldSpotifyManager.swift */'' @ [newline] @ ''ok'') = 32" by simp
  from write_iff_length_changed
    [of "[project_file \<mapsto> ''/* OldSpotifyManager.swift */'' @ [newline] @ ''ok'']"
      "''/* OldSpotifyManager.swift */'' @ [newline] @ ''ok''"]
  show ?thesis unfolding c l by (auto simp: backup_file_neq)
qed

text \<open>
  C7. For every text and every file name of the removal list, the three substitutions
  of the loop body in their order (a), (b), (c) give the same text as substitution (b)
  alone.
\<close>

theorem pattern_b_subsumes:
  "old_file \<in> set old_files \<Longrightarrow>
     re_sub (pattern_c old_file) (re_sub (pattern_b old_file) (re_sub (pattern_a old_file) content))
       = re_sub (pattern_b old_file) content"
proof -
  assume "old_file \<in> set old_files"
  then have F: "newline \<notin> set old_file" by (rule old_files_newline_free)
  obtain ls t where "split_lines content = (ls, t)" by (cases "split_lines content")
  then have c: "content = join_lines ls t"
    and nl: "newline \<notin> set t" "\<forall>l\<in>set ls. newline \<notin> set l"
    using split_lines_sound by blast+
  have "remove_references (join_lines ls t) old_file = re_sub (pattern_b old_file) (join_lines ls t)"
    using F nl by (simp add: remove_references_lines re_sub_pattern_b_lines)
  then show ?thesis unfolding c remove_references_def .
qed

text \<open>A line that all three patterns match.\<close>

theorem pattern_b_subsumes_witness:
  "''OldSpotifyManager.swift'' \<in> set old_files \<and>
   re_sub (pattern_c ''OldSpotifyManager.swift'')
     (re_sub (pattern_b ''OldSpotifyManager.swift'')
       (re_sub (pattern_a ''OldSpotifyManager.swift'')
         (''A.build /* OldSpotifyManager.swift in Sources */'' @ [newline] @ ''ok'')))
     = re_sub (pattern_b ''OldSpotifyManager.swift'')
         (''A.build /* OldSpotifyManager.swift in Sources */'' @ [newline] @ ''ok'') \<and>
   re_sub (pattern_b ''OldSpotifyManager.swift'')
         (''A.build /* OldSpotifyManager.swift in Sources */'' @ [newline] @ ''ok'') = ''ok''"
proof -
  have m: "''OldSpotifyManager.swift'' \<in> set old_files" by (simp add: old_files_def)
  have v: "re_sub (pattern_b ''OldSpotifyManager.swift'')
         (''A.build /* OldSpotifyManager.swift in Sources */'' @ [newline] @ ''ok'') = ''ok''"
    by code_simp
  from m pattern_b_subsumes [OF m] v show ?thesis by blast
qed

text \<open>
  C8, as the code has it. No match of a removal pattern reaches beyond the line it
  starts in: wherever the match starts, it consists of characters other than the
  newline followed by one newline, the first one at or after its start. A match that
  starts in the middle of a line takes the rest of that line and its terminator only.
\<close>

theorem match_stays_in_line:
  "old_file \<in> set old_files \<Longrightarrow>
   p \<in> {pattern_a old_file, pattern_b old_file, pattern_c old_file} \<Longrightarrow>
   match_here p s = Some r \<Longrightarrow>
   \<exists>l. s = l @ newline # r \<and> newline \<notin> set l"
proof -
  assume f: "old_file \<in> set old_files"
    and p: "p \<in> {pattern_a old_file, pattern_b old_file, pattern_c old_file}"
    and m: "match_here p s = Some r"
  from f p have "line_pattern p" by (rule removal_patterns_line)
  from match_line_end [OF this m] show ?thesis by blast
qed

text \<open>A match started in the middle of a line ends with that line.\<close>

theorem match_stays_in_line_witness:
  "''OldSpotifyManager.swift'' \<in> set old_files \<and>
   match_here (pattern_b ''OldSpotifyManager.swift'')
     (''ild /* OldSpotifyManager.swift */'' @ [newline] @ ''next line'' @ [newline])
     = Some (''next line'' @ [newline]) \<and>
   (\<exists>l. ''ild /* OldSpotifyManager.swift */'' @ [newline] @ ''next line'' @ [newline]
          = l @ newline # (''next line'' @ [newline]) \<and> newline \<notin> set l)"
proof -
  have f: "''OldSpotifyManager.swift'' \<in> set old_files" by (simp add: old_files_def)
  have p: "pattern_b ''OldSpotifyManager.swift'' \<in>
      {pattern_a ''OldSpotifyManager.swift'', pattern_b ''OldSpotifyManager.swift'',
       pattern_c ''OldSpotifyManager.swift''}" by simp
  have m: "match_here (pattern_b ''OldSpotifyManager.swift'')
     (''ild /* OldSpotifyManager.swift */'' @ [newline] @ ''next line'' @ [newline])
     = Some (''next line'' @ [newline])"
    by code_simp
  from match_stays_in_line [OF f p m] f m show ?thesis by blast
qed

text \<open>
  C8 as stated fails: there is no text on which a match of one of the patterns contains
  a newline before its last character.
\<close>

theorem no_match_spans_lines:
  "\<not> (\<exists>old_file\<in>set old_files.
        \<exists>p\<in>{pattern_a old_file, pattern_b old_file, pattern_c old_file}.
          \<exists>s m r. match_here p s = Some r \<and> s = m @ r \<and> newline \<in> set (butlast m))"
proof
  assume "\<exists>old_file\<in>set old_files.
        \<exists>p\<in>{pattern_a old_file, pattern_b old_file, pattern_c old_file}.
          \<exists>s m r. match_here p s = Some r \<and> s = m @ r \<and> newline \<in> set (butlast m)"
  then obtain old_file p s m r where f: "old_file \<in> set old_files"
    and p: "p \<in> {pattern_a old_file, pattern_b old_file, pattern_c old_file}"
    and m: "match_here p s = Some r" "s = m @ r" "newline \<in> set (butlast m)"
    by blast
  from f p have "line_pattern p" by (rule removal_patterns_line)
  from match_line_end [OF this m(1)] obtain l where "s = l @ newline # r" "newline \<notin> set l"
    by blast
  with m(2) have "m = l @ [newline]" by simp
  with m(3) \<open>newline \<notin> set l\<close> show False by simp
qed

text \<open>
  C10. A last piece of the text that is not closed by a newline stays in place whatever
  it contains, also a file name of the removal list: the transform works on the
  newline-terminated lines before it only.
\<close>

theorem unterminated_tail_kept:
  "newline \<notin> set tail \<Longrightarrow> body = [] \<or> last body = newline \<Longrightarrow>
     clean_content (body @ tail) = clean_content body @ tail"
proof -
  assume tail: "newline \<notin> set tail" and body: "body = [] \<or> last body = newline"
  obtain ls t where s: "split_lines body = (ls, t)" by (cases "split_lines body")
  from s body have "t = []" by (rule terminated_tail_empty)
  with s have b: "body = join_lines ls []" and nl: "\<forall>l\<in>set ls. newline \<notin> set l"
    using split_lines_sound by blast+
  let ?keep = "\<lambda>l. \<not> mentions_old_file l"
  have "body @ tail = join_lines ls tail" using b join_lines_tail [of ls tail] by simp
  then have "clean_content (body @ tail) = join_lines (filter ?keep ls) tail"
    using nl tail by (simp add: clean_content_join)
  also have "\<dots> = join_lines (filter ?keep ls) [] @ tail" by (rule join_lines_tail)
  also have "join_lines (filter ?keep ls) [] = clean_content body"
    unfolding b using nl by (simp add: clean_content_join)
  finally show ?thesis .
qed

text \<open>Two lines that mention an old file; only the one closed by a newline goes.\<close>

theorem unterminated_tail_kept_witness:
  "newline \<notin> set ''B /* OldSpotifyManager.swift in Sources */'' \<and>
   last (''A /* OldSpotifyManager.swift */'' @ [newline]) = newline \<and>
   mentions_old_file ''B /* OldSpotifyManager.swift in Sources */'' \<and>
   clean_content (''A /* OldSpotifyManager.swift */'' @ [newline]) = [] \<and>
   clean_content ((''A /* OldSpotifyManager.swift */'' @ [newline]) @
                  ''B /* OldSpotifyManager.swift in Sources */'')
     = ''B /* OldSpotifyManager.swift in Sources */''"
proof -
  have t: "newline \<notin> set ''B /* OldSpotifyManager.swift in Sources */''"
    by (simp add: newline_def)
  have b: "(''A /* OldSpotifyManager.swift */'' @ [newline]) = [] \<or>
      last (''A /* OldSpotifyManager.swift */'' @ [newline]) = newline" by simp
  have m: "mentions_old_file ''B /* OldSpotifyManager.swift in Sources */''" by code_simp
  have c: "clean_content (''A /* OldSpotifyManager.swift */'' @ [newline]) = []" by code_simp
  have "clean_content ((''A /* OldSpotifyManager.swift */'' @ [newline]) @
                  ''B /* OldSpotifyManager.swift in Sources */'')
     = ''B /* OldSpotifyManager.swift in Sources */''"
    using unterminated_tail_kept [OF t b] unfolding c by simp
  with t m c show ?thesis by simp
qed

section \<open>Claims about the Structure Checker\<close>

text \<open>
  C2. The check returns \<open>True\<close> exactly when all four key files exist under the base
  directory; it prints a checkmark line for each key file that exists and a cross line
  for each one that does not, in the order of the list; and with any one of the four
  removed it returns \<open>False\<close>.
\<close>

theorem check_new_structure_all_exist:
  "(fst (check_new_structure existing) \<longleftrightarrow> (\<forall>f\<in>set key_files. joinpath base_path f \<in> existing)) \<and>
   snd (check_new_structure existing) =
     Checking # map (\<lambda>f. if joinpath base_path f \<in> existing then Present f else Missing f) key_files \<and>
   (\<forall>f\<in>set key_files. \<not> fst (check_new_structure (existing - {joinpath base_path f})))"
  unfolding check_new_structure_eq by (auto simp: list_all_iff)

text \<open>All four key files, and all but the second.\<close>

theorem check_new_structure_all_exist_witness:
  "''Core/Models/Spotify/SpotifyModels.swift'' \<in> set key_files \<and>
   fst (check_new_structure (set (map (joinpath base_path) key_files))) \<and>
   \<not> fst (check_new_structure (set (map (joinpath base_path) key_files) -
         {joinpath base_path ''Core/Models/Spotify/SpotifyModels.swift''})) \<and>
   snd (check_new_structure (set (map (joinpath base_path) key_files) -
         {joinpath base_path ''Core/Models/Spotify/SpotifyModels.swift''}))
     = [Checking,
        Present ''App/FrequencyFinder.swift'',
        Missing ''Core/Models/Spotify/SpotifyModels.swift'',
        Present ''Core/Services/Spotify/SpotifyManager.swift'',
        Present ''Features/Spotify/Views/SpotifyView.swift'']"
  using check_new_structure_all_exist [of "set (map (joinpath base_path) key_files)"]
    check_new_structure_all_exist [of "set (map (joinpath base_path) key_files) -
         {joinpath base_path ''Core/Models/Spotify/SpotifyModels.swift''}"]
  by (simp add: key_files_def joinpath_def base_path_def)

text \<open>
  C9, as the code has it. The checker does not consult the mapping table at all: its
  outcome is determined by the existence of the four key files under the base
  directory, and only one of the four is a value of the mapping.
\<close>

theorem check_ignores_mapping:
  "((\<forall>f\<in>set key_files. (joinpath base_path f \<in> A) = (joinpath base_path f \<in> B)) \<longrightarrow>
      check_new_structure A = check_new_structure B) \<and>
   set key_files \<inter> snd ` set create_file_mapping = {''App/FrequencyFinder.swift''}"
proof
  show "(\<forall>f\<in>set key_files. (joinpath base_path f \<in> A) = (joinpath base_path f \<in> B)) \<longrightarrow>
      check_new_structure A = check_new_structure B"
    unfolding check_new_structure_eq by (auto simp: list_all_iff)
  show "set key_files \<inter> snd ` set create_file_mapping = {''App/FrequencyFinder.swift''}"
    by (simp add: key_files_def create_file_mapping_def)
qed

text \<open>
  A file system holding every new path of the mapping and one holding only
  \<^verbatim>\<open>App/FrequencyFinder.swift\<close> give the same outcome.
\<close>

theorem check_ignores_mapping_witness:
  "check_new_structure (set (map (joinpath base_path \<circ> snd) create_file_mapping))
     = check_new_structure {joinpath base_path ''App/FrequencyFinder.swift''} \<and>
   snd (check_new_structure {joinpath base_path ''App/FrequencyFinder.swift''})
     = [Checking,
        Present ''App/FrequencyFinder.swift'',
        Missing ''Core/Models/Spotify/SpotifyModels.swift'',
        Missing ''Core/Services/Spotify/SpotifyManager.swift'',
        Missing ''Features/Spotify/Views/SpotifyView.swift'']"
proof -
  have h: "\<forall>f\<in>set key_files.
      (joinpath base_path f \<in> set (map (joinpath base_path \<circ> snd) create_file_mapping)) =
      (joinpath base_path f \<in> {joinpath base_path ''App/FrequencyFinder.swift''})"
    by (simp add: key_files_def create_file_mapping_def joinpath_def base_path_def)
  have v: "snd (check_new_structure {joinpath base_path ''App/FrequencyFinder.swift''})
     = [Checking,
        Present ''App/FrequencyFinder.swift'',
        Missing ''Core/Models/Spotify/SpotifyModels.swift'',
        Missing ''Core/Services/Spotify/SpotifyManager.swift'',
        Missing ''Features/Spotify/Views/SpotifyView.swift'']"
    by (simp add: check_new_structure_eq key_files_def joinpath_def base_path_def)
  from h check_ignores_mapping [of "set (map (joinpath base_path \<circ> snd) create_file_mapping)"
      "{joinpath base_path ''App/FrequencyFinder.swift''}"]
  have "check_new_structure (set (map (joinpath base_path \<circ> snd) create_file_mapping))
     = check_new_structure {joinpath base_path ''App/FrequencyFinder.swift''}"
    by blast
  with v show ?thesis by blast
qed

text \<open>
  C9 as stated fails: the key files are not among the values of the mapping, the check
  fails although every value of the mapping exists, and it succeeds when only the key
  files exist.
\<close>

theorem mapping_values_not_checked:
  "\<not> set key_files \<subseteq> snd ` set create_file_mapping \<and>
   \<not> fst (check_new_structure (set (map (joinpath base_path \<circ> snd) create_file_mapping))) \<and>
   fst (check_new_structure (set (map (joinpath base_path) key_files)))"
  by (simp add: check_new_structure_eq key_files_def create_file_mapping_def joinpath_def base_path_def)

end
